theory Spec2Isabelle
  imports Main
begin

section \<open>Text, files and exceptions\<close>

text \<open>
  A Python \<open>str\<close> is a \<open>string\<close>; the files are opened with \<open>encoding='ascii'\<close>, so
  every character the program ever holds has a code below 128. The file system is a
  map from paths to the bytes stored there.
\<close>

type_synonym path = string
type_synonym filesystem = "path \<rightharpoonup> string"

text \<open>
  The exceptions the three functions can meet. Inside \<open>load_lookup_table\<close> and
  \<open>process_flow_logs\<close> every one of them is caught (\<open>except FileNotFoundError\<close> or
  \<open>except Exception\<close>), a message is printed and \<open>sys.exit(1)\<close> ends the process:
  the result \<open>Inl e\<close> of these two functions stands for that exit, \<open>e\<close> recording the
  exception that led to it.
\<close>

datatype exn =
    FileNotFoundError
  | UnicodeDecodeError
  | InvalidRowLength    \<comment> \<open>\<open>Exception("Invalid row length in log file")\<close>\<close>
  | ValueError_int      \<comment> \<open>\<open>int(protocol)\<close> on a text that is no integer literal\<close>
  | ValueError_unpack   \<comment> \<open>\<open>dstport, protocol, tag = row\<close> on a row of another length\<close>
  | StopIteration       \<comment> \<open>\<open>next(reader)\<close> on an exhausted reader\<close>
  | csv_Error
  | UnicodeEncodeError
  | OSError             \<comment> \<open>\<open>open(output_file, mode='w')\<close> on a path that cannot be opened for writing\<close>
  | ValueError_path     \<comment> \<open>\<open>open\<close> on a path with an embedded NUL character\<close>

definition LF :: char where "LF = CHR 0x0A"
definition CR :: char where "CR = CHR 0x0D"

definition is_ascii :: "char \<Rightarrow> bool" where
  "is_ascii c = ((of_char c :: nat) < 128)"

text \<open>
  \<open>open(path, mode='r', encoding='ascii')\<close> and the decoding of what is read. The
  decoder is run here on the whole content at once; the interpreter decodes block by
  block (8192 bytes), which is the same for every file that fits one block.
\<close>

definition open_read :: "filesystem \<Rightarrow> path \<Rightarrow> exn + string" where
  "open_read fs p =
     (case fs p of
        None \<Rightarrow> Inl FileNotFoundError
      | Some bytes \<Rightarrow> if list_all is_ascii bytes then Inr bytes else Inl UnicodeDecodeError)"

text \<open>
  \<open>for line in file\<close>: text mode with universal newlines. A line ends at \<open>\n\<close>, at
  \<open>\r\<close> or at \<open>\r\n\<close>, each handed on as \<open>\n\<close>; the last line may have no end. The
  flag says that the previous character was a \<open>\r\<close>, whose \<open>\n\<close> is then dropped.
\<close>

fun lines_from :: "bool \<Rightarrow> string \<Rightarrow> string \<Rightarrow> string list" where
  "lines_from cr cur [] = (if cur = [] then [] else [cur])"
| "lines_from cr cur (c # cs) =
     (if c = LF then
        (if cr then lines_from False cur cs
         else (cur @ [LF]) # lines_from False [] cs)
      else if c = CR then (cur @ [LF]) # lines_from True [] cs
      else lines_from False (cur @ [c]) cs)"

definition readlines :: "string \<Rightarrow> string list" where
  "readlines text = lines_from False [] text"

text \<open>
  \<open>str.isspace\<close> on ASCII: tab, line feed, vertical tab, form feed, carriage return,
  the four separators 0x1C..0x1F and the space.
\<close>

definition isspace :: "char \<Rightarrow> bool" where
  "isspace c = (let n = (of_char c :: nat) in (9 \<le> n \<and> n \<le> 13) \<or> (28 \<le> n \<and> n \<le> 32))"

text \<open>\<open>line.split()\<close>: the maximal runs of characters that are not whitespace.\<close>

fun split_ws :: "string \<Rightarrow> string \<Rightarrow> string list" where
  "split_ws cur [] = (if cur = [] then [] else [cur])"
| "split_ws cur (c # cs) =
     (if isspace c then (if cur = [] then split_ws [] cs else cur # split_ws [] cs)
      else split_ws (cur @ [c]) cs)"

definition str_split :: "string \<Rightarrow> string list" where
  "str_split s = split_ws [] s"

text \<open>\<open>str.lower\<close> on ASCII: the letters A..Z move by 32.\<close>

definition lower_char :: "char \<Rightarrow> char" where
  "lower_char c = (let n = (of_char c :: nat) in if 65 \<le> n \<and> n \<le> 90 then char_of (n + 32) else c)"

definition lower :: "string \<Rightarrow> string" where
  "lower s = map lower_char s"

text \<open>
  \<open>int(s)\<close> in base 10 for a text without whitespace: an optional sign, then decimal
  digits, where single underscores may stand between two digits. \<open>None\<close> is the
  \<open>ValueError\<close>. (The interpreter's configurable limit on the number of digits is not
  part of the model.)
\<close>

definition is_digit :: "char \<Rightarrow> bool" where
  "is_digit c = (let n = (of_char c :: nat) in 48 \<le> n \<and> n \<le> 57)"

definition digit_val :: "char \<Rightarrow> int" where
  "digit_val c = int (of_char c) - 48"

fun digits_value :: "int \<Rightarrow> bool \<Rightarrow> string \<Rightarrow> int option" where
  "digits_value acc after_digit [] = (if after_digit then Some acc else None)"
| "digits_value acc after_digit (c # cs) =
     (if is_digit c then digits_value (10 * acc + digit_val c) True cs
      else if c = CHR ''_'' \<and> after_digit then digits_value acc False cs
      else None)"

definition int_py :: "string \<Rightarrow> int option" where
  "int_py s =
     (case s of
        [] \<Rightarrow> None
      | c # cs \<Rightarrow>
          if c = CHR ''+'' then digits_value 0 False cs
          else if c = CHR ''-'' then map_option uminus (digits_value 0 False cs)
          else digits_value 0 False s)"

section \<open>Counting dictionaries\<close>

text \<open>
  A \<open>defaultdict(int)\<close> keeps its keys in the order of their first insertion:
  an association list. \<open>d[k] += 1\<close> adds one in place, or appends \<open>k\<close> with \<open>0 + 1\<close>.
\<close>

type_synonym 'k counter = "('k \<times> int) list"

fun incr :: "'k \<Rightarrow> 'k counter \<Rightarrow> 'k counter" where
  "incr k [] = [(k, 0 + 1)]"
| "incr k ((k', n) # d) = (if k' = k then (k', n + 1) # d else (k', n) # incr k d)"

definition counter_sum :: "'k counter \<Rightarrow> int" where
  "counter_sum d = sum_list (map snd d)"

fun counter_get :: "'k counter \<Rightarrow> 'k \<Rightarrow> int" where
  "counter_get [] k = 0"
| "counter_get ((k', n) # d) k = (if k' = k then n else counter_get d k)"

section \<open>The log classifier\<close>

type_synonym key = "string \<times> string"
type_synonym lookup = "key \<rightharpoonup> string"

record aggregates =
  tag_counts :: "string counter"
  port_protocol_counts :: "key counter"
  untagged_count :: int

text \<open>
  The body of the loop of \<open>process_flow_logs\<close> on one line. \<open>protocol_mapping\<close> is the
  table imported from the module \<open>CONSTANTS\<close>, a parameter here.
\<close>

definition process_line ::
  "(int \<rightharpoonup> string) \<Rightarrow> lookup \<Rightarrow> aggregates \<Rightarrow> string \<Rightarrow> exn + aggregates" where
  "process_line protocol_mapping lookup agg line =
     (let parts = str_split line in
      if length parts < 14 then Inl InvalidRowLength
      else
        let dst_port = parts ! 6; protocol = parts ! 7 in
        case int_py protocol of
          None \<Rightarrow> Inl ValueError_int
        | Some n \<Rightarrow>
            let protocol = (case protocol_mapping n of None \<Rightarrow> [] | Some name \<Rightarrow> name);
                key = (dst_port, lower protocol)
            in Inr (case lookup key of
                      Some tag \<Rightarrow>
                        agg\<lparr>tag_counts := incr tag (tag_counts agg),
                            port_protocol_counts := incr key (port_protocol_counts agg)\<rparr>
                    | None \<Rightarrow>
                        agg\<lparr>untagged_count := untagged_count agg + 1,
                            port_protocol_counts := incr key (port_protocol_counts agg)\<rparr>))"

fun process_lines ::
  "(int \<rightharpoonup> string) \<Rightarrow> lookup \<Rightarrow> aggregates \<Rightarrow> string list \<Rightarrow> exn + aggregates" where
  "process_lines protocol_mapping lookup agg [] = Inr agg"
| "process_lines protocol_mapping lookup agg (line # rest) =
     (case process_line protocol_mapping lookup agg line of
        Inl e \<Rightarrow> Inl e
      | Inr agg' \<Rightarrow> process_lines protocol_mapping lookup agg' rest)"

definition empty_aggregates :: aggregates where
  "empty_aggregates = \<lparr>tag_counts = [], port_protocol_counts = [], untagged_count = 0\<rparr>"

definition process_flow_logs ::
  "(int \<rightharpoonup> string) \<Rightarrow> filesystem \<Rightarrow> path \<Rightarrow> lookup \<Rightarrow> exn + aggregates" where
  "process_flow_logs protocol_mapping fs flow_log_file lookup =
     (case open_read fs flow_log_file of
        Inl e \<Rightarrow> Inl e
      | Inr text \<Rightarrow> process_lines protocol_mapping lookup empty_aggregates (readlines text))"

section \<open>The reader of the \<open>csv\<close> module\<close>

text \<open>
  \<open>csv.reader(file)\<close> with the default dialect: delimiter comma, quote character the double quote,
  doubled quotes, no escape character, no skipping of initial spaces, not strict. The
  reader is the state machine of the module: it is fed the characters of each line and
  then an end-of-line mark (\<open>None\<close> below). A field may not grow beyond the module's
  field size limit. (Python 3.11 and later, where a NUL character is an ordinary one.)
\<close>

datatype csv_state =
  START_RECORD | START_FIELD | IN_FIELD | IN_QUOTED_FIELD | QUOTE_IN_QUOTED_FIELD | EAT_CRNL

record reader =
  state_r :: csv_state
  fields_r :: "string list"
  field_r :: string

definition delimiter :: char where "delimiter = CHR '',''"
definition quotechar :: char where "quotechar = CHR 0x22"

definition field_limit :: nat where
  "field_limit = 131072"

definition parse_reset :: reader where
  "parse_reset = \<lparr>state_r = START_RECORD, fields_r = [], field_r = []\<rparr>"

definition parse_save_field :: "reader \<Rightarrow> reader" where
  "parse_save_field r = r\<lparr>fields_r := fields_r r @ [field_r r], field_r := []\<rparr>"

definition parse_add_char :: "reader \<Rightarrow> char \<Rightarrow> exn + reader" where
  "parse_add_char r c =
     (if length (field_r r) \<ge> field_limit then Inl csv_Error
      else Inr (r\<lparr>field_r := field_r r @ [c]\<rparr>))"

definition is_newline :: "char option \<Rightarrow> bool" where
  "is_newline c = (c = Some LF \<or> c = Some CR)"

definition after_line_end :: "char option \<Rightarrow> csv_state" where
  "after_line_end c = (if c = None then START_RECORD else EAT_CRNL)"

definition start_field :: "reader \<Rightarrow> char option \<Rightarrow> exn + reader" where
  "start_field r c =
     (if is_newline c \<or> c = None then Inr ((parse_save_field r)\<lparr>state_r := after_line_end c\<rparr>)
      else if c = Some quotechar then Inr (r\<lparr>state_r := IN_QUOTED_FIELD\<rparr>)
      else if c = Some delimiter then Inr (parse_save_field r)
      else map_sum id (\<lambda>r'. r'\<lparr>state_r := IN_FIELD\<rparr>) (parse_add_char r (the c)))"

fun parse_process_char :: "reader \<Rightarrow> char option \<Rightarrow> exn + reader" where
  "parse_process_char r c =
     (case state_r r of
        START_RECORD \<Rightarrow>
          if c = None then Inr r
          else if is_newline c then Inr (r\<lparr>state_r := EAT_CRNL\<rparr>)
          else start_field (r\<lparr>state_r := START_FIELD\<rparr>) c
      | START_FIELD \<Rightarrow> start_field r c
      | IN_FIELD \<Rightarrow>
          if is_newline c \<or> c = None then Inr ((parse_save_field r)\<lparr>state_r := after_line_end c\<rparr>)
          else if c = Some delimiter then Inr ((parse_save_field r)\<lparr>state_r := START_FIELD\<rparr>)
          else parse_add_char r (the c)
      | IN_QUOTED_FIELD \<Rightarrow>
          if c = None then Inr r
          else if c = Some quotechar then Inr (r\<lparr>state_r := QUOTE_IN_QUOTED_FIELD\<rparr>)
          else parse_add_char r (the c)
      | QUOTE_IN_QUOTED_FIELD \<Rightarrow>
          if c = Some quotechar then
            map_sum id (\<lambda>r'. r'\<lparr>state_r := IN_QUOTED_FIELD\<rparr>) (parse_add_char r (the c))
          else if c = Some delimiter then Inr ((parse_save_field r)\<lparr>state_r := START_FIELD\<rparr>)
          else if is_newline c \<or> c = None then
            Inr ((parse_save_field r)\<lparr>state_r := after_line_end c\<rparr>)
          else map_sum id (\<lambda>r'. r'\<lparr>state_r := IN_FIELD\<rparr>) (parse_add_char r (the c))
      | EAT_CRNL \<Rightarrow>
          if is_newline c then Inr r
          else if c = None then Inr (r\<lparr>state_r := START_RECORD\<rparr>)
          else Inl csv_Error)"

text \<open>One pass of the inner loop: the characters of a line, then the end-of-line mark.\<close>

fun parse_line :: "reader \<Rightarrow> string \<Rightarrow> exn + reader" where
  "parse_line r [] = parse_process_char r None"
| "parse_line r (c # cs) =
     (case parse_process_char r (Some c) of
        Inl e \<Rightarrow> Inl e
      | Inr r' \<Rightarrow> parse_line r' cs)"

text \<open>
  The rows the reader yields from a list of lines, in order, and the exception that ends
  the iteration, if one does. Each row starts from a reset reader and takes lines until
  the machine is back in \<open>START_RECORD\<close>; when the lines run out inside a record, what has
  been read is the last row.
\<close>

fun reader_rows :: "reader \<Rightarrow> string list \<Rightarrow> string list list \<times> exn option" where
  "reader_rows r [] =
     (if field_r r \<noteq> [] \<or> state_r r = IN_QUOTED_FIELD then ([fields_r (parse_save_field r)], None)
      else ([], None))"
| "reader_rows r (line # rest) =
     (case parse_line r line of
        Inl e \<Rightarrow> ([], Some e)
      | Inr r' \<Rightarrow>
          if state_r r' = START_RECORD then
            (case reader_rows parse_reset rest of (rows, e) \<Rightarrow> (fields_r r' # rows, e))
          else reader_rows r' rest)"

definition csv_reader :: "string list \<Rightarrow> string list list \<times> exn option" where
  "csv_reader lines = reader_rows parse_reset lines"

section \<open>The lookup loader\<close>

text \<open>
  The loop of \<open>load_lookup_table\<close> over the rows after the header: the length check, the
  unpacking of the row into exactly three names, the assignment into the dictionary.
\<close>

fun load_rows :: "lookup \<Rightarrow> string list list \<Rightarrow> exn + lookup" where
  "load_rows lookup [] = Inr lookup"
| "load_rows lookup (row # rows) =
     (if length row < 3 then Inl InvalidRowLength
      else
        (case row of
           [dstport, protocol, tag] \<Rightarrow> load_rows (lookup((dstport, lower protocol) \<mapsto> tag)) rows
         | _ \<Rightarrow> Inl ValueError_unpack))"

text \<open>
  \<open>next(reader)\<close> takes the header; the loop runs over the other rows; an exception of
  the reader arrives where its rows end.
\<close>

definition load_lookup_table :: "filesystem \<Rightarrow> path \<Rightarrow> exn + lookup" where
  "load_lookup_table fs lookup_file =
     (case open_read fs lookup_file of
        Inl e \<Rightarrow> Inl e
      | Inr text \<Rightarrow>
          (case csv_reader (readlines text) of
             ([], None) \<Rightarrow> Inl StopIteration
           | ([], Some e) \<Rightarrow> Inl e
           | (header # rows, err) \<Rightarrow>
               (case load_rows Map.empty rows of
                  Inl e \<Rightarrow> Inl e
                | Inr lookup \<Rightarrow> (case err of None \<Rightarrow> Inr lookup | Some e \<Rightarrow> Inl e))))"

section \<open>The report writer\<close>

text \<open>\<open>str(n)\<close> of an integer, as the f-strings of \<open>write_output\<close> format the counts.\<close>

definition digit_char :: "nat \<Rightarrow> char" where
  "digit_char d = char_of (48 + d)"

fun digits10 :: "nat \<Rightarrow> string" where
  "digits10 n = (if n < 10 then [digit_char n] else digits10 (n div 10) @ [digit_char (n mod 10)])"

declare digits10.simps [simp del]

definition str_int :: "int \<Rightarrow> string" where
  "str_int i = (if i < 0 then CHR ''-'' # digits10 (nat (- i)) else digits10 (nat i))"

text \<open>
  A file open for writing with \<open>encoding='ascii'\<close>: the text written so far, and the
  exception that stopped the writing, if any. \<open>file.write(s)\<close> encodes \<open>s\<close> whole, so a
  text that cannot be encoded adds nothing; closing the file stores what was written
  before. Line ends are written as they are (POSIX).
\<close>

type_synonym out_file = "string \<times> exn option"

definition file_write :: "string \<Rightarrow> out_file \<Rightarrow> out_file" where
  "file_write s f =
     (case f of
        (buf, Some e) \<Rightarrow> (buf, Some e)
      | (buf, None) \<Rightarrow> if list_all is_ascii s then (buf @ s, None) else (buf, Some UnicodeEncodeError))"

definition write_tag :: "string \<times> int \<Rightarrow> out_file \<Rightarrow> out_file" where
  "write_tag item f = (case item of (tag, count) \<Rightarrow> file_write (tag @ '','' @ str_int count @ [LF]) f)"

definition write_port_protocol :: "key \<times> int \<Rightarrow> out_file \<Rightarrow> out_file" where
  "write_port_protocol item f =
     (case item of ((port, protocol), count) \<Rightarrow>
        file_write (port @ '','' @ protocol @ '','' @ str_int count @ [LF]) f)"

text \<open>
  \<open>open(output_file, mode='w', encoding='ascii')\<close>. Whether a path can be opened for
  writing is a matter of the environment (the directory exists, the permissions allow
  it, the path names no directory): \<open>writable\<close> is that answer, a parameter. The empty
  path and a path with a NUL character can never be opened. \<open>None\<close> is the open file;
  otherwise the exception is raised and nothing is created or truncated.
\<close>

definition open_write :: "(path \<Rightarrow> bool) \<Rightarrow> path \<Rightarrow> exn option" where
  "open_write writable p =
     (if p = [] then Some FileNotFoundError
      else if CHR 0x00 \<in> set p then Some ValueError_path
      else if writable p then None
      else Some OSError)"

text \<open>
  \<open>write_output\<close>: the exception it ends with, if any, and the file system it leaves.
  When the opening fails nothing is written; otherwise the file holds what was written
  until the end or until a text could not be encoded.
\<close>

definition write_output ::
  "(path \<Rightarrow> bool) \<Rightarrow> string counter \<Rightarrow> key counter \<Rightarrow> int \<Rightarrow> path \<Rightarrow> filesystem
     \<Rightarrow> exn option \<times> filesystem" where
  "write_output writable tag_cnts port_protocol_cnts untagged_cnt output_file fs =
     (case open_write writable output_file of
        Some e \<Rightarrow> (Some e, fs)
      | None \<Rightarrow>
          (let f0 = ([], None);
               f1 = file_write (''Tag Counts:'' @ [LF]) f0;
               f2 = file_write (''Tag,Count'' @ [LF]) f1;
               f3 = fold write_tag tag_cnts f2;
               f4 = file_write (''Untagged,'' @ str_int untagged_cnt @ [LF] @ [LF]) f3;
               f5 = file_write (''Port/Protocol Combination Counts:'' @ [LF]) f4;
               f6 = file_write (''Port,Protocol,Count'' @ [LF]) f5;
               f7 = fold write_port_protocol port_protocol_cnts f6
           in (snd f7, fs(output_file \<mapsto> fst f7))))"

section \<open>The entry point\<close>

text \<open>
  \<open>main\<close> on the argument vector and the file system: the exit status of the process and
  the file system it leaves. An exception of \<open>write_output\<close> (the output path cannot
  be opened, a text cannot be encoded) is caught nowhere and ends the process with
  status 1 as well. \<open>writable\<close> is the environment's answer for \<open>open_write\<close>.
\<close>

definition main ::
  "(path \<Rightarrow> bool) \<Rightarrow> (int \<rightharpoonup> string) \<Rightarrow> string list \<Rightarrow> filesystem \<Rightarrow> int \<times> filesystem" where
  "main writable protocol_mapping argv fs =
     (if length argv \<noteq> 4 then (1, fs)
      else
        let flow_log_file = argv ! 1; lookup_file = argv ! 2; output_file = argv ! 3 in
        case load_lookup_table fs lookup_file of
          Inl e \<Rightarrow> (1, fs)
        | Inr lookup \<Rightarrow>
            (case process_flow_logs protocol_mapping fs flow_log_file lookup of
               Inl e \<Rightarrow> (1, fs)
             | Inr agg \<Rightarrow>
                 (case write_output writable (tag_counts agg) (port_protocol_counts agg)
                         (untagged_count agg) output_file fs of
                    (None, fs') \<Rightarrow> (0, fs')
                  | (Some e, fs') \<Rightarrow> (1, fs'))))"

section \<open>What the specification says, in its own words\<close>

text \<open>
  The key and the tag of a lookup row, and the tag of the last row of a file that has a
  given key: the mapping the specification announces (last write wins).
\<close>

definition row_key :: "string list \<Rightarrow> key" where
  "row_key row = (row ! 0, lower (row ! 1))"

definition row_tag :: "string list \<Rightarrow> string" where
  "row_tag row = row ! 2"

definition spec_last_wins :: "string list list \<Rightarrow> lookup" where
  "spec_last_wins rows key =
     (case filter (\<lambda>row. row_key row = key) rows of
        [] \<Rightarrow> None
      | row # others \<Rightarrow> Some (row_tag (last (row # others))))"

text \<open>
  The report of the specification, line by line: the two sections, each with its title
  and its header, the tags and the pairs in the order of the dictionaries, the untagged
  count, and one empty line between the sections. Every line ends with a line feed.
\<close>

definition spec_tag_line :: "string \<times> int \<Rightarrow> string" where
  "spec_tag_line item = fst item @ '','' @ str_int (snd item)"

definition spec_port_protocol_line :: "key \<times> int \<Rightarrow> string" where
  "spec_port_protocol_line item =
     fst (fst item) @ '','' @ snd (fst item) @ '','' @ str_int (snd item)"

definition spec_report_lines :: "string counter \<Rightarrow> key counter \<Rightarrow> int \<Rightarrow> string list" where
  "spec_report_lines tags pairs untagged =
     [''Tag Counts:'', ''Tag,Count''] @ map spec_tag_line tags
       @ [''Untagged,'' @ str_int untagged, []]
       @ [''Port/Protocol Combination Counts:'', ''Port,Protocol,Count'']
       @ map spec_port_protocol_line pairs"

definition spec_report :: "string counter \<Rightarrow> key counter \<Rightarrow> int \<Rightarrow> string" where
  "spec_report tags pairs untagged =
     concat (map (\<lambda>l. l @ [LF]) (spec_report_lines tags pairs untagged))"

definition ascii_counter :: "string counter \<Rightarrow> bool" where
  "ascii_counter tags = list_all (\<lambda>item. list_all is_ascii (fst item)) tags"

definition ascii_key_counter :: "key counter \<Rightarrow> bool" where
  "ascii_key_counter pairs =
     list_all (\<lambda>item. list_all is_ascii (fst (fst item)) \<and> list_all is_ascii (snd (fst item))) pairs"

text \<open>
  Text that is ASCII throughout: a table whose values are, a reader whose fields are, a
  character handed to the reader (or the end-of-line mark).
\<close>

definition ascii_reader :: "reader \<Rightarrow> bool" where
  "ascii_reader r = (list_all is_ascii (field_r r) \<and> list_all (list_all is_ascii) (fields_r r))"

definition ascii_table :: "('a \<rightharpoonup> string) \<Rightarrow> bool" where
  "ascii_table m = (\<forall>k v. m k = Some v \<longrightarrow> list_all is_ascii v)"

definition ascii_input :: "char option \<Rightarrow> bool" where
  "ascii_input c = (case c of None \<Rightarrow> True | Some ch \<Rightarrow> is_ascii ch)"

section \<open>Sample inputs\<close>

definition example_protocols :: "int \<rightharpoonup> string" where
  "example_protocols = [6 \<mapsto> ''tcp'', 17 \<mapsto> ''udp'']"

definition example_lookup_text :: string where
  "example_lookup_text =
     ''dstport,protocol,tag'' @ [LF] @ ''25,tcp,sv_P1'' @ [LF] @ ''443,tcp,sv_P2'' @ [LF]
       @ ''25,TCP,sv_P3'' @ [LF]"

definition example_lookup :: lookup where
  "example_lookup = [(''443'', ''tcp'') \<mapsto> ''sv_P2'', (''25'', ''tcp'') \<mapsto> ''sv_P3'']"

definition line_tcp :: string where
  "line_tcp = ''2 123456789012 eni-0a1b2c3d 10.0.1.201 198.51.100.2 443 25 6 25 20000 1620140761 1620140821 ACCEPT OK'' @ [LF]"

definition line_unmapped :: string where
  "line_unmapped = ''2 123456789012 eni-0a1b2c3d 10.0.1.201 198.51.100.2 443 53 999 25 20000 1620140761 1620140821 ACCEPT OK'' @ [LF]"

definition line_short :: string where
  "line_short = ''2 123456789012 eni-0a1b2c3d'' @ [LF]"

definition line_bad_protocol :: string where
  "line_bad_protocol = ''2 123456789012 eni-0a1b2c3d 10.0.1.201 198.51.100.2 443 25 tcp 25 20000 1620140761 1620140821 ACCEPT OK'' @ [LF]"

definition example_log :: string where
  "example_log = line_tcp @ line_unmapped @ line_tcp"

definition example_fs :: filesystem where
  "example_fs =
     [''lookup.csv'' \<mapsto> example_lookup_text,
      ''flow.log'' \<mapsto> example_log,
      ''short.log'' \<mapsto> line_tcp @ line_short @ line_tcp,
      ''bad.log'' \<mapsto> line_tcp @ line_bad_protocol @ line_tcp,
      ''empty.csv'' \<mapsto> [],
      ''out.txt'' \<mapsto> ''old'']"

definition example_aggregates :: aggregates where
  "example_aggregates =
     \<lparr>tag_counts = [(''sv_P3'', 2)],
      port_protocol_counts = [((''25'', ''tcp''), 2), ((''53'', []), 1)],
      untagged_count = 1\<rparr>"

definition example_report :: string where
  "example_report =
     ''Tag Counts:'' @ [LF] @ ''Tag,Count'' @ [LF] @ ''sv_P3,2'' @ [LF] @ ''Untagged,1'' @ [LF]
       @ [LF]
       @ ''Port/Protocol Combination Counts:'' @ [LF] @ ''Port,Protocol,Count'' @ [LF]
       @ ''25,tcp,2'' @ [LF] @ ''53,,1'' @ [LF]"

definition extra_field_text :: string where
  "extra_field_text = ''dstport,protocol,tag'' @ [LF] @ ''25,tcp,sv_P1,extra'' @ [LF]"

text \<open>An environment where files can be written in the working directory only.\<close>

definition example_writable :: "path \<Rightarrow> bool" where
  "example_writable p = list_all (\<lambda>c. c \<noteq> CHR ''/'') p"

section \<open>Properties of the counters\<close>

lemma counter_sum_incr: "counter_sum (incr k d) = counter_sum d + 1"
  by (induction d) (auto simp: counter_sum_def)

lemma counter_get_incr:
  "counter_get (incr k d) k' = (if k' = k then counter_get d k + 1 else counter_get d k')"
  by (induction d) auto

text \<open>A new key goes to the end, a known key stays where it is: first-seen order.\<close>

lemma keys_incr:
  "map fst (incr k d) = (if k \<in> set (map fst d) then map fst d else map fst d @ [k])"
proof (induction d)
  case Nil
  then show ?case by simp
next
  case (Cons x d)
  then show ?case by (cases x) (auto split: if_splits)
qed

section \<open>Properties of the log classifier\<close>

lemma process_line_Inr:
  assumes "process_line pm lk agg line = Inr agg'"
  shows "14 \<le> length (str_split line)"
    and "int_py (str_split line ! 7) \<noteq> None"
    and "counter_sum (tag_counts agg') + untagged_count agg'
           = counter_sum (tag_counts agg) + untagged_count agg + 1"
    and "counter_sum (port_protocol_counts agg') = counter_sum (port_protocol_counts agg) + 1"
  using assms
  by (auto simp: process_line_def Let_def counter_sum_incr split: if_splits option.splits)

lemma process_line_Inl:
  "process_line pm lk agg line = Inl e \<Longrightarrow> e = InvalidRowLength \<or> e = ValueError_int"
  by (auto simp: process_line_def Let_def split: if_splits option.splits)

lemma process_lines_Inl:
  "process_lines pm lk agg ls = Inl e \<Longrightarrow> e = InvalidRowLength \<or> e = ValueError_int"
  by (induction ls arbitrary: agg) (auto split: sum.splits dest: process_line_Inl)

lemma process_lines_sums:
  "process_lines pm lk agg ls = Inr agg' \<Longrightarrow>
     counter_sum (tag_counts agg') + untagged_count agg'
       = counter_sum (tag_counts agg) + untagged_count agg + int (length ls)
   \<and> counter_sum (port_protocol_counts agg')
       = counter_sum (port_protocol_counts agg) + int (length ls)"
proof (induction ls arbitrary: agg)
  case Nil
  then show ?case by simp
next
  case (Cons l ls)
  from Cons.prems obtain a where a: "process_line pm lk agg l = Inr a"
    and rest: "process_lines pm lk a ls = Inr agg'"
    by (auto split: sum.splits)
  from Cons.IH [OF rest] process_line_Inr(3,4) [OF a] show ?case by simp
qed

lemma process_lines_all_ok:
  "process_lines pm lk agg ls = Inr agg' \<Longrightarrow> l \<in> set ls \<Longrightarrow>
     14 \<le> length (str_split l) \<and> int_py (str_split l ! 7) \<noteq> None"
proof (induction ls arbitrary: agg)
  case Nil
  then show ?case by simp
next
  case (Cons x ls)
  from Cons.prems(1) obtain a where a: "process_line pm lk agg x = Inr a"
    and rest: "process_lines pm lk a ls = Inr agg'"
    by (auto split: sum.splits)
  show ?case
  proof (cases "l = x")
    case True
    with process_line_Inr(1,2) [OF a] show ?thesis by simp
  next
    case False
    with Cons.prems(2) have "l \<in> set ls" by simp
    from Cons.IH [OF rest this] show ?thesis .
  qed
qed

lemma process_flow_logs_Inr:
  "process_flow_logs pm fs p lk = Inr agg \<Longrightarrow> fs p = Some content \<Longrightarrow>
     process_lines pm lk empty_aggregates (readlines content) = Inr agg"
  by (auto simp: process_flow_logs_def open_read_def split: if_splits)

lemma process_flow_logs_Inl:
  "process_flow_logs pm fs p lk = Inl e \<Longrightarrow> fs p = Some content \<Longrightarrow>
     e = UnicodeDecodeError \<or> e = InvalidRowLength \<or> e = ValueError_int"
  by (auto simp: process_flow_logs_def open_read_def split: if_splits dest: process_lines_Inl)

lemma process_flow_logs_bad_line:
  assumes "fs p = Some content" and "line \<in> set (readlines content)"
    and "length (str_split line) < 14 \<or> int_py (str_split line ! 7) = None"
  shows "\<exists>e. process_flow_logs pm fs p lk = Inl e
            \<and> (e = UnicodeDecodeError \<or> e = InvalidRowLength \<or> e = ValueError_int)"
proof (cases "process_flow_logs pm fs p lk")
  case (Inl e)
  with process_flow_logs_Inl [of pm fs p lk e content, OF Inl assms(1)] show ?thesis by simp
next
  case (Inr agg)
  from process_lines_all_ok
    [OF process_flow_logs_Inr [of pm fs p lk agg content, OF Inr assms(1)] assms(2)] assms(3)
  show ?thesis by auto
qed

text \<open>
  C1. When \<open>process_flow_logs\<close> returns, the counts of all tags plus the untagged count
  equal the number of lines of the flow log, which equals the sum of the counts of all
  port/protocol pairs.
\<close>

theorem flow_counts_invariant:
  assumes "fs p = Some content"
    and "process_flow_logs pm fs p lk = Inr agg"
  shows "counter_sum (tag_counts agg) + untagged_count agg = int (length (readlines content))
     \<and> int (length (readlines content)) = counter_sum (port_protocol_counts agg)"
  using process_lines_sums [OF process_flow_logs_Inr [of pm fs p lk agg content, OF assms(2) assms(1)]]
  by (simp add: empty_aggregates_def counter_sum_def)

theorem flow_counts_invariant_witness:
  "example_fs ''flow.log'' = Some example_log
   \<and> process_flow_logs example_protocols example_fs ''flow.log'' example_lookup
       = Inr example_aggregates
   \<and> counter_sum (tag_counts example_aggregates) + untagged_count example_aggregates
       = int (length (readlines example_log))
   \<and> int (length (readlines example_log))
       = counter_sum (port_protocol_counts example_aggregates)"
proof -
  have h1: "example_fs ''flow.log'' = Some example_log"
    by (simp add: example_fs_def)
  have h2: "process_flow_logs example_protocols example_fs ''flow.log'' example_lookup
              = Inr example_aggregates"
    by code_simp
  from flow_counts_invariant [of example_fs "''flow.log''" example_log example_protocols
      example_lookup example_aggregates, OF h1 h2] h1 h2
  show ?thesis by simp
qed

text \<open>
  C3. A flow log with a line of fewer than 14 whitespace-separated fields makes
  \<open>process_flow_logs\<close> end the process through its handler, whatever the other lines
  are: no aggregates are returned. The exception behind the exit is the one of the
  first defective line of the file (a short line, a protocol field that is no integer)
  or of the decoding.
\<close>

theorem short_line_is_fatal:
  assumes "fs p = Some content"
    and "line \<in> set (readlines content)"
    and "length (str_split line) < 14"
  shows "\<exists>e. process_flow_logs pm fs p lk = Inl e
            \<and> (e = UnicodeDecodeError \<or> e = InvalidRowLength \<or> e = ValueError_int)"
  using process_flow_logs_bad_line [of fs p content line pm lk] assms by blast

theorem short_line_is_fatal_witness:
  "example_fs ''short.log'' = Some (line_tcp @ line_short @ line_tcp)
   \<and> line_short \<in> set (readlines (line_tcp @ line_short @ line_tcp))
   \<and> length (str_split line_short) < 14
   \<and> (\<exists>e. process_flow_logs example_protocols example_fs ''short.log'' example_lookup = Inl e
            \<and> (e = UnicodeDecodeError \<or> e = InvalidRowLength \<or> e = ValueError_int))"
proof -
  have h1: "example_fs ''short.log'' = Some (line_tcp @ line_short @ line_tcp)"
    by (simp add: example_fs_def)
  have h2: "line_short \<in> set (readlines (line_tcp @ line_short @ line_tcp))"
    by code_simp
  have h3: "length (str_split line_short) < 14"
    by code_simp
  from short_line_is_fatal [of example_fs "''short.log''" "line_tcp @ line_short @ line_tcp"
      line_short example_protocols example_lookup, OF h1 h2 h3] h1 h2 h3
  show ?thesis by blast
qed

text \<open>
  C6. A line whose protocol number is not in the protocol table does not fail: the name
  is the empty text, the key is the port with the empty protocol, the port/protocol
  counts get one more occurrence under that key, and when the lookup has no such key
  the line is counted as untagged and no tag count changes.
\<close>

theorem unmapped_protocol_is_untagged:
  assumes "14 \<le> length (str_split line)"
    and "int_py (str_split line ! 7) = Some n"
    and "pm n = None"
  shows "\<exists>agg'. process_line pm lk agg line = Inr agg'
     \<and> port_protocol_counts agg' = incr (str_split line ! 6, []) (port_protocol_counts agg)
     \<and> counter_get (port_protocol_counts agg') (str_split line ! 6, [])
         = counter_get (port_protocol_counts agg) (str_split line ! 6, []) + 1
     \<and> (lk (str_split line ! 6, []) = None \<longrightarrow>
          untagged_count agg' = untagged_count agg + 1 \<and> tag_counts agg' = tag_counts agg)"
  using assms
  by (auto simp: process_line_def Let_def lower_def counter_get_incr split: option.splits)

theorem unmapped_protocol_is_untagged_witness:
  "14 \<le> length (str_split line_unmapped)
   \<and> int_py (str_split line_unmapped ! 7) = Some 999
   \<and> example_protocols 999 = None
   \<and> example_lookup (''53'', []) = None
   \<and> process_line example_protocols example_lookup empty_aggregates line_unmapped
       = Inr \<lparr>tag_counts = [], port_protocol_counts = [((''53'', []), 1)], untagged_count = 1\<rparr>"
proof -
  have h1: "14 \<le> length (str_split line_unmapped)" by code_simp
  have h2: "int_py (str_split line_unmapped ! 7) = Some 999" by code_simp
  have h3: "example_protocols 999 = None" by (simp add: example_protocols_def)
  have h4: "example_lookup (''53'', []) = None" by (simp add: example_lookup_def)
  have h5: "str_split line_unmapped ! 6 = ''53''" by code_simp
  from unmapped_protocol_is_untagged [of line_unmapped 999 example_protocols example_lookup
      empty_aggregates, OF h1 h2 h3] h4 h5
  have "process_line example_protocols example_lookup empty_aggregates line_unmapped
       = Inr \<lparr>tag_counts = [], port_protocol_counts = [((''53'', []), 1)], untagged_count = 1\<rparr>"
    by (auto simp: empty_aggregates_def)
  with h1 h2 h3 h4 show ?thesis by blast
qed

text \<open>
  C7. A line with at least 14 fields whose field 7 is no integer literal raises on that
  line (it is neither skipped nor counted), and a flow log that contains such a line
  makes \<open>process_flow_logs\<close> end the process through its handler.
\<close>

theorem bad_protocol_is_fatal:
  assumes "fs p = Some content"
    and "line \<in> set (readlines content)"
    and "14 \<le> length (str_split line)"
    and "int_py (str_split line ! 7) = None"
  shows "process_line pm lk agg line = Inl ValueError_int
     \<and> (\<exists>e. process_flow_logs pm fs p lk = Inl e
            \<and> (e = UnicodeDecodeError \<or> e = InvalidRowLength \<or> e = ValueError_int))"
proof
  from assms(3,4) show "process_line pm lk agg line = Inl ValueError_int"
    by (simp add: process_line_def Let_def)
  from process_flow_logs_bad_line [of fs p content line pm lk] assms
  show "\<exists>e. process_flow_logs pm fs p lk = Inl e
            \<and> (e = UnicodeDecodeError \<or> e = InvalidRowLength \<or> e = ValueError_int)"
    by blast
qed

theorem bad_protocol_is_fatal_witness:
  "example_fs ''bad.log'' = Some (line_tcp @ line_bad_protocol @ line_tcp)
   \<and> line_bad_protocol \<in> set (readlines (line_tcp @ line_bad_protocol @ line_tcp))
   \<and> 14 \<le> length (str_split line_bad_protocol)
   \<and> int_py (str_split line_bad_protocol ! 7) = None
   \<and> process_line example_protocols example_lookup empty_aggregates line_bad_protocol
        = Inl ValueError_int
   \<and> process_flow_logs example_protocols example_fs ''bad.log'' example_lookup
        = Inl ValueError_int"
proof -
  have h1: "example_fs ''bad.log'' = Some (line_tcp @ line_bad_protocol @ line_tcp)"
    by (simp add: example_fs_def)
  have h2: "line_bad_protocol \<in> set (readlines (line_tcp @ line_bad_protocol @ line_tcp))"
    by code_simp
  have h3: "14 \<le> length (str_split line_bad_protocol)" by code_simp
  have h4: "int_py (str_split line_bad_protocol ! 7) = None" by code_simp
  have h5: "process_flow_logs example_protocols example_fs ''bad.log'' example_lookup
        = Inl ValueError_int" by code_simp
  from bad_protocol_is_fatal [of example_fs "''bad.log''"
      "line_tcp @ line_bad_protocol @ line_tcp" line_bad_protocol example_protocols
      example_lookup empty_aggregates, OF h1 h2 h3 h4] h1 h2 h3 h4 h5
  show ?thesis by blast
qed

section \<open>Properties of the lookup loader\<close>

lemma load_rows_Inr:
  "load_rows m0 rows = Inr m \<Longrightarrow>
     (\<forall>row \<in> set rows. length row = 3)
   \<and> m key = (case spec_last_wins rows key of None \<Rightarrow> m0 key | Some t \<Rightarrow> Some t)"
proof (induction rows arbitrary: m0)
  case Nil
  then show ?case by (simp add: spec_last_wins_def)
next
  case (Cons row rows)
  from Cons.prems obtain a b c where row: "row = [a, b, c]"
    and rest: "load_rows (m0((a, lower b) \<mapsto> c)) rows = Inr m"
    by (auto split: if_splits list.splits)
  from Cons.IH [OF rest] row show ?case
    by (auto simp: spec_last_wins_def row_key_def row_tag_def split: list.splits)
qed

lemma load_rows_long_row:
  "row \<in> set rows \<Longrightarrow> length row \<noteq> 3 \<Longrightarrow> \<exists>e. load_rows m0 rows = Inl e"
  using load_rows_Inr [of m0 rows] by (cases "load_rows m0 rows") auto

lemma load_lookup_table_Inr:
  assumes "fs p = Some content" and "load_lookup_table fs p = Inr m"
  shows "\<exists>header rows. csv_reader (readlines content) = (header # rows, None)
           \<and> load_rows Map.empty rows = Inr m"
  using assms
  by (auto simp: load_lookup_table_def open_read_def
      split: if_splits prod.splits list.splits option.splits sum.splits)

text \<open>Evaluating the reader on the sample files.\<close>

lemmas csv_eval =
  csv_reader_def readlines_def parse_reset_def parse_save_field_def parse_add_char_def
  start_field_def is_newline_def after_line_end_def field_limit_def
  LF_def CR_def delimiter_def quotechar_def

lemma example_lookup_rows:
  "csv_reader (readlines example_lookup_text)
     = ([''dstport'', ''protocol'', ''tag''] #
        [[''25'', ''tcp'', ''sv_P1''], [''443'', ''tcp'', ''sv_P2''], [''25'', ''TCP'', ''sv_P3'']],
        None)"
  by (simp add: example_lookup_text_def csv_eval)

lemma example_lookup_ascii: "list_all is_ascii example_lookup_text"
  by code_simp

lemma lower_examples: "lower ''tcp'' = ''tcp''" "lower ''TCP'' = ''tcp''"
  by code_simp+

lemma example_lookup_loaded: "load_lookup_table example_fs ''lookup.csv'' = Inr example_lookup"
  by (simp add: load_lookup_table_def open_read_def example_fs_def example_lookup_ascii
      example_lookup_rows lower_examples example_lookup_def)

lemma extra_field_rows:
  "csv_reader (readlines extra_field_text)
     = ([[''dstport'', ''protocol'', ''tag''], [''25'', ''tcp'', ''sv_P1'', ''extra'']], None)"
  by (simp add: extra_field_text_def csv_eval)

lemma extra_field_ascii: "list_all is_ascii extra_field_text"
  by code_simp

lemma example_empty_lookup: "load_lookup_table example_fs ''empty.csv'' = Inl StopIteration"
  by (simp add: load_lookup_table_def open_read_def example_fs_def csv_eval)

lemma example_short_log:
  "process_flow_logs example_protocols example_fs ''short.log'' example_lookup
     = Inl InvalidRowLength"
  by code_simp

text \<open>
  C2. A lookup row with more than three fields does not load: the row passes the length
  check and the unpacking into three names raises, which ends the process. Here the
  file has the header and the row \<open>25,tcp,sv_P1,extra\<close>.
\<close>

theorem extra_fields_fail:
  "load_lookup_table [''lookup.csv'' \<mapsto> extra_field_text] ''lookup.csv'' = Inl ValueError_unpack"
  by (simp add: load_lookup_table_def open_read_def extra_field_rows extra_field_ascii)

text \<open>
  C5. When \<open>load_lookup_table\<close> returns a mapping, the reader has yielded a header and
  rows, and the mapping gives every key the tag of the last row with that key (and
  nothing to a key of no row).
\<close>

theorem last_write_wins:
  assumes "fs p = Some content" and "load_lookup_table fs p = Inr m"
  shows "\<exists>header rows. csv_reader (readlines content) = (header # rows, None)
           \<and> (\<forall>key. m key = spec_last_wins rows key)"
proof -
  from load_lookup_table_Inr [of fs p content m, OF assms] obtain header rows
    where r: "csv_reader (readlines content) = (header # rows, None)"
      and l: "load_rows Map.empty rows = Inr m" by blast
  have "m key = spec_last_wins rows key" for key
    using load_rows_Inr [OF l, of key] by (simp split: option.splits)
  with r show ?thesis by blast
qed

theorem last_write_wins_witness:
  "example_fs ''lookup.csv'' = Some example_lookup_text
   \<and> load_lookup_table example_fs ''lookup.csv'' = Inr example_lookup
   \<and> csv_reader (readlines example_lookup_text)
       = ([''dstport'', ''protocol'', ''tag''] #
          [[''25'', ''tcp'', ''sv_P1''], [''443'', ''tcp'', ''sv_P2''], [''25'', ''TCP'', ''sv_P3'']],
          None)
   \<and> example_lookup (''25'', ''tcp'') = Some ''sv_P3''
   \<and> example_lookup (''25'', ''tcp'')
       = spec_last_wins
           [[''25'', ''tcp'', ''sv_P1''], [''443'', ''tcp'', ''sv_P2''], [''25'', ''TCP'', ''sv_P3'']]
           (''25'', ''tcp'')"
proof -
  have h1: "example_fs ''lookup.csv'' = Some example_lookup_text"
    by (simp add: example_fs_def)
  note h2 = example_lookup_loaded
  from last_write_wins [of example_fs "''lookup.csv''" example_lookup_text example_lookup,
      OF h1 h2] example_lookup_rows
  have "example_lookup (''25'', ''tcp'')
       = spec_last_wins
           [[''25'', ''tcp'', ''sv_P1''], [''443'', ''tcp'', ''sv_P2''], [''25'', ''TCP'', ''sv_P3'']]
           (''25'', ''tcp'')"
    by simp
  moreover have "example_lookup (''25'', ''tcp'') = Some ''sv_P3''"
    by (simp add: example_lookup_def)
  ultimately show ?thesis using h1 h2 example_lookup_rows by simp
qed

text \<open>
  C10. A lookup file that exists and is empty makes \<open>next(reader)\<close> raise
  \<open>StopIteration\<close>, which the broad handler turns into the exit with status 1: no
  mapping is returned, and \<open>main\<close> ends with status 1 and the files as they were.
\<close>

theorem empty_lookup_file_exits:
  assumes "fs p = Some []"
  shows "load_lookup_table fs p = Inl StopIteration
     \<and> main writable pm [prog, flow_log_file, p, output_file] fs = (1, fs)"
  using assms
  by (simp add: main_def load_lookup_table_def open_read_def readlines_def csv_reader_def
      parse_reset_def)

theorem empty_lookup_file_exits_witness:
  "example_fs ''empty.csv'' = Some []
   \<and> load_lookup_table example_fs ''empty.csv'' = Inl StopIteration
   \<and> main example_writable example_protocols
        [''logParser.py'', ''flow.log'', ''empty.csv'', ''out.txt''] example_fs
       = (1, example_fs)"
proof -
  have h: "example_fs ''empty.csv'' = Some []" by (simp add: example_fs_def)
  from empty_lookup_file_exits [of example_fs "''empty.csv''" example_writable example_protocols
      "''logParser.py''" "''flow.log''" "''out.txt''", OF h] h
  show ?thesis by simp
qed

section \<open>Properties of the report writer\<close>

lemma is_ascii_digit_char: "d < 10 \<Longrightarrow> is_ascii (digit_char d)"
  by (simp add: is_ascii_def digit_char_def)

lemma ascii_digits10: "list_all is_ascii (digits10 n)"
proof (induction n rule: digits10.induct)
  case (1 n)
  show ?case
  proof (cases "n < 10")
    case True
    then show ?thesis by (subst digits10.simps) (simp add: is_ascii_digit_char)
  next
    case False
    with 1 have "list_all is_ascii (digits10 (n div 10))" by simp
    moreover have "is_ascii (digit_char (n mod 10))" by (rule is_ascii_digit_char) simp
    ultimately show ?thesis using False by (subst digits10.simps) simp
  qed
qed

lemma ascii_str_int: "list_all is_ascii (str_int i)"
  by (simp add: str_int_def ascii_digits10 is_ascii_def)

lemma file_write_ascii: "list_all is_ascii s \<Longrightarrow> file_write s (buf, None) = (buf @ s, None)"
  by (simp add: file_write_def)

lemma write_tag_ascii:
  "list_all is_ascii (fst item) \<Longrightarrow>
     write_tag item (buf, None) = (buf @ spec_tag_line item @ [LF], None)"
  by (cases item)
     (simp add: write_tag_def spec_tag_line_def file_write_def ascii_str_int is_ascii_def LF_def)

lemma write_port_protocol_ascii:
  "list_all is_ascii (fst (fst item)) \<Longrightarrow> list_all is_ascii (snd (fst item)) \<Longrightarrow>
     write_port_protocol item (buf, None) = (buf @ spec_port_protocol_line item @ [LF], None)"
  by (cases item, cases "fst item")
     (simp add: write_port_protocol_def spec_port_protocol_line_def file_write_def ascii_str_int
        is_ascii_def LF_def)

lemma fold_write_tag:
  "ascii_counter tags \<Longrightarrow>
     fold write_tag tags (buf, None)
       = (buf @ concat (map (\<lambda>l. l @ [LF]) (map spec_tag_line tags)), None)"
  by (induction tags arbitrary: buf) (simp_all add: ascii_counter_def write_tag_ascii)

lemma fold_write_port_protocol:
  "ascii_key_counter pairs \<Longrightarrow>
     fold write_port_protocol pairs (buf, None)
       = (buf @ concat (map (\<lambda>l. l @ [LF]) (map spec_port_protocol_line pairs)), None)"
  by (induction pairs arbitrary: buf)
     (simp_all add: ascii_key_counter_def write_port_protocol_ascii)

text \<open>When the output path cannot be opened, the exception leaves and nothing changes.\<close>

lemma write_output_not_opened:
  "open_write writable output_file = Some e \<Longrightarrow>
     write_output writable tags pairs untagged output_file fs = (Some e, fs)"
  by (simp add: write_output_def)

lemma open_write_None:
  "open_write writable p = None \<longleftrightarrow> p \<noteq> [] \<and> CHR 0x00 \<notin> set p \<and> writable p"
  by (simp add: open_write_def)

lemma write_output_spec:
  assumes "open_write writable output_file = None"
    and "ascii_counter tags" and "ascii_key_counter pairs"
  shows "write_output writable tags pairs untagged output_file fs
           = (None, fs(output_file \<mapsto> spec_report tags pairs untagged))"
proof -
  have w: "file_write s (buf, None) = (buf @ s, None)" if "list_all is_ascii s" for s buf
    using that by (rule file_write_ascii)
  have a1: "list_all is_ascii (''Tag Counts:'' @ [LF])"
    and a2: "list_all is_ascii (''Tag,Count'' @ [LF])"
    and a3: "list_all is_ascii (''Port/Protocol Combination Counts:'' @ [LF])"
    and a4: "list_all is_ascii (''Port,Protocol,Count'' @ [LF])"
    by (simp_all add: is_ascii_def LF_def)
  have a5: "list_all is_ascii (''Untagged,'' @ str_int untagged @ [LF] @ [LF])"
    by (simp add: ascii_str_int is_ascii_def LF_def)
  show ?thesis
    unfolding write_output_def Let_def assms(1) option.case
    by (simp only: w [OF a1] w [OF a2] w [OF a3] w [OF a4] w [OF a5]
          fold_write_tag [OF assms(2)] fold_write_port_protocol [OF assms(3)])
       (simp add: spec_report_def spec_report_lines_def)
qed

lemma example_open_write: "open_write example_writable ''out.txt'' = None"
  by (simp add: open_write_def example_writable_def)

text \<open>
  C8. When the output path can be opened for writing, \<open>write_output\<close> on aggregates of
  ASCII text raises nothing and leaves at the output path exactly the report of the
  specification, whatever the path held before: the title and the header of the tag
  section, one line per tag in the order of the dictionary, the untagged line, one
  empty line, the title and the header of the port/protocol section, one line per pair
  in the order of the dictionary.
\<close>

theorem report_structure:
  assumes "open_write writable output_file = None"
    and "ascii_counter tags" and "ascii_key_counter pairs"
  shows "write_output writable tags pairs untagged output_file fs
           = (None, fs(output_file \<mapsto> spec_report tags pairs untagged))"
  using assms by (rule write_output_spec)

theorem report_structure_witness:
  "open_write example_writable ''out.txt'' = None
   \<and> ascii_counter (tag_counts example_aggregates)
   \<and> ascii_key_counter (port_protocol_counts example_aggregates)
   \<and> write_output example_writable (tag_counts example_aggregates)
        (port_protocol_counts example_aggregates) (untagged_count example_aggregates)
        ''out.txt'' example_fs
       = (None, example_fs(''out.txt'' \<mapsto> example_report))"
proof -
  note h0 = example_open_write
  have h1: "ascii_counter (tag_counts example_aggregates)" by code_simp
  have h2: "ascii_key_counter (port_protocol_counts example_aggregates)" by code_simp
  have h3: "spec_report (tag_counts example_aggregates) (port_protocol_counts example_aggregates)
              (untagged_count example_aggregates) = example_report"
    by code_simp
  from report_structure [OF h0 h1 h2, of "untagged_count example_aggregates" example_fs]
    h0 h1 h2 h3
  show ?thesis by simp
qed

section \<open>Only ASCII text reaches the writer\<close>

text \<open>
  Every text of the aggregates comes from a decoded file or from the protocol table, so
  with a protocol table of ASCII names the aggregates that \<open>main\<close> hands to
  \<open>write_output\<close> are ASCII text, and the report is written whole.
\<close>

lemma is_ascii_LF: "is_ascii LF"
  by (simp add: is_ascii_def LF_def)

lemma lines_from_ascii:
  "list_all is_ascii cur \<Longrightarrow> list_all is_ascii s \<Longrightarrow>
     list_all (list_all is_ascii) (lines_from cr cur s)"
  by (induction cr cur s rule: lines_from.induct) (auto simp: is_ascii_LF)

lemma readlines_ascii: "list_all is_ascii s \<Longrightarrow> list_all (list_all is_ascii) (readlines s)"
  by (simp add: readlines_def lines_from_ascii)

lemma split_ws_ascii:
  "list_all is_ascii cur \<Longrightarrow> list_all is_ascii s \<Longrightarrow>
     list_all (list_all is_ascii) (split_ws cur s)"
  by (induction cur s rule: split_ws.induct) auto

lemma str_split_ascii: "list_all is_ascii s \<Longrightarrow> list_all (list_all is_ascii) (str_split s)"
  by (simp add: str_split_def split_ws_ascii)

lemma lower_char_ascii: "is_ascii c \<Longrightarrow> is_ascii (lower_char c)"
  by (auto simp: is_ascii_def lower_char_def Let_def)

lemma lower_ascii: "list_all is_ascii s \<Longrightarrow> list_all is_ascii (lower s)"
  by (induction s) (auto simp: lower_def lower_char_ascii)

lemma ascii_counter_incr: "ascii_counter (incr k d) = (list_all is_ascii k \<and> ascii_counter d)"
  by (induction d) (auto simp: ascii_counter_def split: if_splits)

lemma ascii_key_counter_incr:
  "ascii_key_counter (incr k d)
     = (list_all is_ascii (fst k) \<and> list_all is_ascii (snd k) \<and> ascii_key_counter d)"
  by (induction d) (auto simp: ascii_key_counter_def split: if_splits)

lemma process_line_ascii:
  assumes "process_line pm lk agg line = Inr agg'"
    and "ascii_table pm" and "ascii_table lk" and "list_all is_ascii line"
    and "ascii_counter (tag_counts agg)" and "ascii_key_counter (port_protocol_counts agg)"
  shows "ascii_counter (tag_counts agg') \<and> ascii_key_counter (port_protocol_counts agg')"
proof -
  let ?parts = "str_split line"
  from assms(1) have len: "14 \<le> length ?parts"
    by (auto simp: process_line_def Let_def split: if_splits)
  from str_split_ascii [OF assms(4)] len have port: "list_all is_ascii (?parts ! 6)"
    by (simp add: list_all_length)
  have name: "list_all is_ascii (lower nm)" if "pm n = Some nm" for n nm
    using assms(2) that by (auto simp: ascii_table_def lower_ascii)
  have none: "list_all is_ascii (lower [])"
    by (simp add: lower_def)
  from assms(1,3,5,6) len port name none show ?thesis
    by (auto simp: process_line_def Let_def ascii_counter_incr ascii_key_counter_incr
        ascii_table_def split: option.splits)
qed

lemma process_lines_ascii:
  "process_lines pm lk agg ls = Inr agg' \<Longrightarrow> ascii_table pm \<Longrightarrow> ascii_table lk \<Longrightarrow>
   list_all (list_all is_ascii) ls \<Longrightarrow>
   ascii_counter (tag_counts agg) \<Longrightarrow> ascii_key_counter (port_protocol_counts agg) \<Longrightarrow>
   ascii_counter (tag_counts agg') \<and> ascii_key_counter (port_protocol_counts agg')"
proof (induction ls arbitrary: agg)
  case Nil
  then show ?case by simp
next
  case (Cons l ls)
  from Cons.prems(1) obtain a where a: "process_line pm lk agg l = Inr a"
    and rest: "process_lines pm lk a ls = Inr agg'"
    by (auto split: sum.splits)
  from process_line_ascii [OF a Cons.prems(2,3)] Cons.prems(4,5,6)
  have "ascii_counter (tag_counts a) \<and> ascii_key_counter (port_protocol_counts a)" by simp
  with Cons.IH [OF rest Cons.prems(2,3)] Cons.prems(4) show ?case by simp
qed

lemma process_flow_logs_ascii:
  assumes "process_flow_logs pm fs p lk = Inr agg" and "ascii_table pm" and "ascii_table lk"
  shows "ascii_counter (tag_counts agg) \<and> ascii_key_counter (port_protocol_counts agg)"
proof -
  from assms(1) obtain content where c: "fs p = Some content" "list_all is_ascii content"
    and r: "process_lines pm lk empty_aggregates (readlines content) = Inr agg"
    by (auto simp: process_flow_logs_def open_read_def split: option.splits if_splits)
  from process_lines_ascii [OF r assms(2,3) readlines_ascii [OF c(2)]] show ?thesis
    by (simp add: empty_aggregates_def ascii_counter_def ascii_key_counter_def)
qed

lemma ascii_reader_state [simp]: "ascii_reader (r\<lparr>state_r := s\<rparr>) = ascii_reader r"
  by (simp add: ascii_reader_def)

lemma ascii_reader_reset: "ascii_reader parse_reset"
  by (simp add: ascii_reader_def parse_reset_def)

lemma parse_save_field_ascii: "ascii_reader r \<Longrightarrow> ascii_reader (parse_save_field r)"
  by (simp add: ascii_reader_def parse_save_field_def)

lemma parse_add_char_ascii:
  "ascii_reader r \<Longrightarrow> is_ascii c \<Longrightarrow> parse_add_char r c = Inr r' \<Longrightarrow> ascii_reader r'"
  by (auto simp: ascii_reader_def parse_add_char_def split: if_splits)

lemma map_sum_state_ascii:
  "ascii_reader r \<Longrightarrow> is_ascii c \<Longrightarrow>
     map_sum id (\<lambda>r'. r'\<lparr>state_r := s\<rparr>) (parse_add_char r c) = Inr r' \<Longrightarrow> ascii_reader r'"
  by (cases "parse_add_char r c") (auto dest: parse_add_char_ascii)

lemma start_field_ascii:
  "ascii_reader r \<Longrightarrow> ascii_input c \<Longrightarrow> start_field r c = Inr r' \<Longrightarrow> ascii_reader r'"
  by (cases c)
     (auto simp: start_field_def ascii_input_def parse_save_field_ascii
        split: if_splits dest: map_sum_state_ascii)

lemma parse_process_char_ascii:
  assumes "ascii_reader r" and "ascii_input c" and "parse_process_char r c = Inr r'"
  shows "ascii_reader r'"
proof (cases "state_r r")
  case START_RECORD
  have "ascii_reader r'" if "start_field (r\<lparr>state_r := START_FIELD\<rparr>) c = Inr r'"
    using start_field_ascii [of "r\<lparr>state_r := START_FIELD\<rparr>" c r'] assms(1,2) that by simp
  with START_RECORD assms show ?thesis
    by (auto split: if_splits)
next
  case START_FIELD
  with assms show ?thesis by (auto dest: start_field_ascii)
next
  case IN_FIELD
  with assms show ?thesis
    by (cases c) (auto simp: ascii_input_def parse_save_field_ascii split: if_splits
        dest: parse_add_char_ascii)
next
  case IN_QUOTED_FIELD
  with assms show ?thesis
    by (cases c) (auto simp: ascii_input_def split: if_splits dest: parse_add_char_ascii)
next
  case QUOTE_IN_QUOTED_FIELD
  with assms show ?thesis
    by (cases c) (auto simp: ascii_input_def parse_save_field_ascii split: if_splits
        dest: map_sum_state_ascii)
next
  case EAT_CRNL
  with assms show ?thesis by (auto split: if_splits)
qed

lemma parse_line_ascii:
  "ascii_reader r \<Longrightarrow> list_all is_ascii line \<Longrightarrow> parse_line r line = Inr r' \<Longrightarrow>
     ascii_reader r'"
proof (induction line arbitrary: r)
  case Nil
  then show ?case
    using parse_process_char_ascii [of r None r'] by (simp add: ascii_input_def)
next
  case (Cons c cs)
  from Cons.prems(3) obtain r1 where r1: "parse_process_char r (Some c) = Inr r1"
    and rest: "parse_line r1 cs = Inr r'"
    by (auto split: sum.splits)
  from parse_process_char_ascii [OF Cons.prems(1) _ r1] Cons.prems(2)
  have "ascii_reader r1" by (simp add: ascii_input_def)
  from Cons.IH [OF this _ rest] Cons.prems(2) show ?case by simp
qed

lemma reader_rows_ascii:
  "ascii_reader r \<Longrightarrow> list_all (list_all is_ascii) ls \<Longrightarrow>
     list_all (list_all (list_all is_ascii)) (fst (reader_rows r ls))"
proof (induction ls arbitrary: r)
  case Nil
  from parse_save_field_ascii [OF Nil(1)] show ?case
    by (simp add: ascii_reader_def)
next
  case (Cons l ls)
  show ?case
  proof (cases "parse_line r l")
    case (Inl e)
    then show ?thesis by simp
  next
    case (Inr r1)
    from parse_line_ascii [OF Cons.prems(1) _ Inr] Cons.prems(2)
    have a: "ascii_reader r1" by simp
    from Cons.prems(2) have ls: "list_all (list_all is_ascii) ls" by simp
    show ?thesis
    proof (cases "state_r r1 = START_RECORD")
      case True
      from Cons.IH [OF ascii_reader_reset ls] a True Inr show ?thesis
        by (cases "reader_rows parse_reset ls") (simp add: ascii_reader_def)
    next
      case False
      from Cons.IH [OF a ls] False Inr show ?thesis by simp
    qed
  qed
qed

lemma load_rows_ascii:
  "load_rows m0 rows = Inr m \<Longrightarrow> ascii_table m0 \<Longrightarrow>
   list_all (list_all (list_all is_ascii)) rows \<Longrightarrow> ascii_table m"
proof (induction rows arbitrary: m0)
  case Nil
  then show ?case by simp
next
  case (Cons row rows)
  from Cons.prems(1) obtain a b c where row: "row = [a, b, c]"
    and rest: "load_rows (m0((a, lower b) \<mapsto> c)) rows = Inr m"
    by (auto split: if_splits list.splits)
  from Cons.prems(2,3) row have "ascii_table (m0((a, lower b) \<mapsto> c))"
    by (auto simp: ascii_table_def)
  from Cons.IH [OF rest this] Cons.prems(3) show ?case by simp
qed

lemma load_lookup_table_ascii:
  assumes "load_lookup_table fs p = Inr m"
  shows "ascii_table m"
proof -
  from assms obtain content header rows
    where c: "list_all is_ascii content"
      and r: "csv_reader (readlines content) = (header # rows, None)"
      and l: "load_rows Map.empty rows = Inr m"
    by (auto simp: load_lookup_table_def open_read_def
        split: option.splits if_splits prod.splits list.splits sum.splits)
  from reader_rows_ascii [OF ascii_reader_reset readlines_ascii [OF c]] r
  have "list_all (list_all (list_all is_ascii)) rows"
    by (simp add: csv_reader_def)
  from load_rows_ascii [OF l _ this] show ?thesis by (simp add: ascii_table_def)
qed

section \<open>Properties of the entry point\<close>

lemma main_success:
  assumes "length argv = 4" and "ascii_table pm"
    and "load_lookup_table fs (argv ! 2) = Inr lk"
    and "process_flow_logs pm fs (argv ! 1) lk = Inr agg"
    and "open_write writable (argv ! 3) = None"
  shows "main writable pm argv fs
           = (0, fs(argv ! 3 \<mapsto>
                spec_report (tag_counts agg) (port_protocol_counts agg) (untagged_count agg)))"
proof -
  from process_flow_logs_ascii [OF assms(4,2) load_lookup_table_ascii [OF assms(3)]]
  have "ascii_counter (tag_counts agg)" "ascii_key_counter (port_protocol_counts agg)"
    by simp_all
  from write_output_spec [OF assms(5) this] assms(1,3,4) show ?thesis
    by (simp add: main_def)
qed

text \<open>
  When loader and classifier succeed and the output path cannot be opened, the exception
  of \<open>open\<close> ends the process with status 1 and no file is written.
\<close>

lemma main_not_opened:
  assumes "length argv = 4"
    and "load_lookup_table fs (argv ! 2) = Inr lk"
    and "process_flow_logs pm fs (argv ! 1) lk = Inr agg"
    and "open_write writable (argv ! 3) = Some e"
  shows "main writable pm argv fs = (1, fs)"
  using assms by (simp add: main_def write_output_not_opened)

lemma main_status_0_opened:
  assumes "fst (main writable pm [prog, flow_log_file, lookup_file, output_file] fs) = 0"
  shows "open_write writable output_file = None"
proof (cases "open_write writable output_file")
  case None
  then show ?thesis .
next
  case (Some e)
  with assms show ?thesis
    by (auto simp: main_def write_output_not_opened split: sum.splits)
qed

lemma load_lookup_table_content:
  "fs1 p1 = fs2 p2 \<Longrightarrow> load_lookup_table fs1 p1 = load_lookup_table fs2 p2"
  by (simp add: load_lookup_table_def open_read_def)

lemma process_flow_logs_content:
  "fs1 p1 = fs2 p2 \<Longrightarrow> process_flow_logs pm fs1 p1 lk = process_flow_logs pm fs2 p2 lk"
  by (simp add: process_flow_logs_def open_read_def)

text \<open>
  What \<open>write_output\<close> stores, once the file is open, is a function of the aggregates:
  the same exception or none, and the same bytes, for any two paths and file systems.
\<close>

lemma write_output_content:
  assumes "open_write w1 out1 = None" and "open_write w2 out2 = None"
  shows "fst (write_output w1 tags pairs u out1 fs1) = fst (write_output w2 tags pairs u out2 fs2)
   \<and> (\<exists>report. snd (write_output w1 tags pairs u out1 fs1) out1 = Some report
              \<and> snd (write_output w2 tags pairs u out2 fs2) out2 = Some report)"
  using assms by (simp add: write_output_def Let_def)

lemma example_run:
  "main example_writable example_protocols
     [''logParser.py'', ''flow.log'', ''lookup.csv'', ''out.txt''] example_fs
     = (0, example_fs(''out.txt'' \<mapsto> example_report))"
proof -
  have f: "process_flow_logs example_protocols example_fs ''flow.log'' example_lookup
             = Inr example_aggregates"
    by code_simp
  have a: "ascii_counter (tag_counts example_aggregates)"
    "ascii_key_counter (port_protocol_counts example_aggregates)"
    "spec_report (tag_counts example_aggregates) (port_protocol_counts example_aggregates)
       (untagged_count example_aggregates) = example_report"
    by code_simp+
  have "write_output example_writable (tag_counts example_aggregates)
        (port_protocol_counts example_aggregates) (untagged_count example_aggregates)
        ''out.txt'' example_fs
       = (None, example_fs(''out.txt'' \<mapsto> example_report))"
    by (simp add: a write_output_spec example_open_write)
  then show ?thesis
    by (simp add: main_def example_lookup_loaded f)
qed

text \<open>The same run towards a directory that does not exist: status 1, nothing written.\<close>

lemma example_run_no_directory:
  "main example_writable example_protocols
     [''logParser.py'', ''flow.log'', ''lookup.csv'', ''nodir/out.txt''] example_fs
     = (1, example_fs)"
proof -
  have f: "process_flow_logs example_protocols example_fs ''flow.log'' example_lookup
             = Inr example_aggregates"
    by code_simp
  have o: "open_write example_writable ''nodir/out.txt'' = Some OSError"
    by (simp add: open_write_def example_writable_def)
  show ?thesis
    by (rule main_not_opened [where lk = example_lookup and agg = example_aggregates and e = OSError])
       (simp_all add: example_lookup_loaded f o)
qed

text \<open>The same run with the empty output path, in any environment: status 1 as well.\<close>

lemma example_run_empty_path:
  "main writable example_protocols [''logParser.py'', ''flow.log'', ''lookup.csv'', []] example_fs
     = (1, example_fs)"
proof -
  have f: "process_flow_logs example_protocols example_fs ''flow.log'' example_lookup
             = Inr example_aggregates"
    by code_simp
  have o: "open_write writable [] = Some FileNotFoundError"
    by (simp add: open_write_def)
  show ?thesis
    by (rule main_not_opened [where lk = example_lookup and agg = example_aggregates
          and e = FileNotFoundError])
       (simp_all add: example_lookup_loaded f o)
qed

text \<open>
  C4. When the lookup loader fails, or the log classifier fails after the loader
  succeeded, \<open>main\<close> ends with status 1 and the file system is what it was: nothing was
  written, and a file at the output path keeps its content.
\<close>

theorem no_output_on_failure:
  assumes "length argv = 4"
    and "(\<exists>e. load_lookup_table fs (argv ! 2) = Inl e)
       \<or> (\<exists>lookup e. load_lookup_table fs (argv ! 2) = Inr lookup
              \<and> process_flow_logs pm fs (argv ! 1) lookup = Inl e)"
  shows "main writable pm argv fs = (1, fs)"
  using assms by (auto simp: main_def)

theorem no_output_on_failure_witness:
  "load_lookup_table example_fs ''empty.csv'' = Inl StopIteration
   \<and> main example_writable example_protocols
        [''logParser.py'', ''flow.log'', ''empty.csv'', ''out.txt''] example_fs
       = (1, example_fs)
   \<and> load_lookup_table example_fs ''lookup.csv'' = Inr example_lookup
   \<and> process_flow_logs example_protocols example_fs ''short.log'' example_lookup
       = Inl InvalidRowLength
   \<and> main example_writable example_protocols
        [''logParser.py'', ''short.log'', ''lookup.csv'', ''out.txt''] example_fs
       = (1, example_fs)
   \<and> example_fs ''out.txt'' = Some ''old''"
proof -
  note e = example_empty_lookup
  have m1: "main example_writable example_protocols
              [''logParser.py'', ''flow.log'', ''empty.csv'', ''out.txt''] example_fs
              = (1, example_fs)"
    by (rule no_output_on_failure) (simp_all add: e)
  have m2: "main example_writable example_protocols
              [''logParser.py'', ''short.log'', ''lookup.csv'', ''out.txt''] example_fs
              = (1, example_fs)"
    by (rule no_output_on_failure) (simp_all add: example_lookup_loaded example_short_log)
  have o: "example_fs ''out.txt'' = Some ''old''" by (simp add: example_fs_def)
  from e m1 m2 o example_short_log example_lookup_loaded show ?thesis by blast
qed

text \<open>
  C9. The result of \<open>load_lookup_table\<close> depends on the content of the lookup file only:
  two runs on the same content give the same mapping. For \<open>main\<close>, with one protocol
  table, two runs on the same contents of the lookup file and of the flow log, under
  any paths, with any other files and whatever the output paths held before: when both
  output paths can be opened for writing the exit status is the same, and when both
  runs end with status 0 the two output files hold the same bytes.
\<close>

theorem pipeline_deterministic:
  assumes "fs1 lookup1 = fs2 lookup2" and "fs1 log1 = fs2 log2"
  shows "load_lookup_table fs1 lookup1 = load_lookup_table fs2 lookup2
     \<and> (open_write w1 out1 = None \<and> open_write w2 out2 = None \<longrightarrow>
          fst (main w1 pm [prog1, log1, lookup1, out1] fs1)
            = fst (main w2 pm [prog2, log2, lookup2, out2] fs2))
     \<and> (fst (main w1 pm [prog1, log1, lookup1, out1] fs1) = 0
          \<and> fst (main w2 pm [prog2, log2, lookup2, out2] fs2) = 0 \<longrightarrow>
          (\<exists>report. snd (main w1 pm [prog1, log1, lookup1, out1] fs1) out1 = Some report
                 \<and> snd (main w2 pm [prog2, log2, lookup2, out2] fs2) out2 = Some report))"
proof -
  let ?run1 = "main w1 pm [prog1, log1, lookup1, out1] fs1"
  let ?run2 = "main w2 pm [prog2, log2, lookup2, out2] fs2"
  note l = load_lookup_table_content [of fs1 lookup1 fs2 lookup2, OF assms(1)]
  have opened: "open_write w1 out1 = None \<and> open_write w2 out2 = None"
    if "fst ?run1 = 0" and "fst ?run2 = 0"
    using that main_status_0_opened [of w1 pm prog1 log1 lookup1 out1 fs1]
      main_status_0_opened [of w2 pm prog2 log2 lookup2 out2 fs2]
    by simp
  have both: "fst ?run1 = fst ?run2
      \<and> (fst ?run1 = 0 \<longrightarrow> (\<exists>report. snd ?run1 out1 = Some report \<and> snd ?run2 out2 = Some report))"
    if o: "open_write w1 out1 = None" "open_write w2 out2 = None"
  proof (cases "load_lookup_table fs2 lookup2")
    case (Inl e)
    with l show ?thesis by (simp add: main_def)
  next
    case (Inr lk)
    note p = process_flow_logs_content [of fs1 log1 fs2 log2 pm lk, OF assms(2)]
    show ?thesis
    proof (cases "process_flow_logs pm fs2 log2 lk")
      case (Inl e)
      with l p Inr show ?thesis by (simp add: main_def)
    next
      case agg: (Inr agg)
      from write_output_content [OF o, of "tag_counts agg" "port_protocol_counts agg"
          "untagged_count agg" fs1 fs2]
      show ?thesis using l p Inr agg
        by (auto simp: main_def split: prod.splits option.splits)
    qed
  qed
  from l opened both show ?thesis by blast
qed

theorem pipeline_deterministic_witness:
  "example_fs ''lookup.csv'' = (example_fs(''out.txt'' \<mapsto> example_report)) ''lookup.csv''
   \<and> example_fs ''flow.log'' = (example_fs(''out.txt'' \<mapsto> example_report)) ''flow.log''
   \<and> open_write example_writable ''out.txt'' = None
   \<and> open_write example_writable ''report.txt'' = None
   \<and> main example_writable example_protocols
        [''logParser.py'', ''flow.log'', ''lookup.csv'', ''out.txt''] example_fs
       = (0, example_fs(''out.txt'' \<mapsto> example_report))
   \<and> fst (main example_writable example_protocols
             [''logParser.py'', ''flow.log'', ''lookup.csv'', ''report.txt'']
             (example_fs(''out.txt'' \<mapsto> example_report))) = 0
   \<and> snd (main example_writable example_protocols
             [''logParser.py'', ''flow.log'', ''lookup.csv'', ''report.txt'']
             (example_fs(''out.txt'' \<mapsto> example_report))) ''report.txt'' = Some example_report"
proof -
  let ?fs2 = "example_fs(''out.txt'' \<mapsto> example_report)"
  have h1: "example_fs ''lookup.csv'' = ?fs2 ''lookup.csv''" by simp
  have h2: "example_fs ''flow.log'' = ?fs2 ''flow.log''" by simp
  note o1 = example_open_write
  have o2: "open_write example_writable ''report.txt'' = None"
    by (simp add: open_write_def example_writable_def)
  from pipeline_deterministic [of example_fs "''lookup.csv''" ?fs2 "''lookup.csv''"
      "''flow.log''" "''flow.log''" example_writable "''out.txt''" example_writable
      "''report.txt''" example_protocols "''logParser.py''" "''logParser.py''", OF h1 h2]
    example_run h1 h2 o1 o2
  show ?thesis by auto
qed

end
